theory Spec2Isabelle
  imports Main
begin

section \<open>Python strings and integer formatting\<close>

text \<open>
  A Python \<^verbatim>\<open>str\<close> is a sequence of Unicode code points.  The program's literals
  contain the arrow U+2192 and Cyrillic letters, which do not fit the 8-bit \<^typ>\<open>char\<close>,
  so a string is modelled as the list of its code points.
\<close>

type_synonym pystr = "nat list"

definition ascii :: "string \<Rightarrow> pystr" where
  "ascii s = map of_char s"

definition arrow :: nat where
  "arrow = 8594"

text \<open>The Cyrillic text of the literal on line 10, after the arrow and the space.\<close>

definition error_word :: pystr where
  "error_word = [1054, 1064, 1048, 1041, 1050, 1040, 58, 32,
                 1086, 1090, 1088, 1080, 1094, 1072, 1090, 1077, 1083, 1100, 1085, 1086, 1077]"

definition upper_hex_digits :: pystr where
  "upper_hex_digits = ascii ''0123456789ABCDEF''"

fun dec_digits :: "nat \<Rightarrow> pystr" where
  "dec_digits n = (if n < 10 then [48 + n] else dec_digits (n div 10) @ [48 + n mod 10])"

fun hex_digits :: "nat \<Rightarrow> pystr" where
  "hex_digits n =
     (if n < 16 then [upper_hex_digits ! n]
      else hex_digits (n div 16) @ [upper_hex_digits ! (n mod 16)])"

declare dec_digits.simps [simp del]
declare hex_digits.simps [simp del]

text \<open>\<^verbatim>\<open>f"{n}"\<close>: the decimal rendering of an int, with a minus sign when negative.\<close>

definition str_int :: "int \<Rightarrow> pystr" where
  "str_int n = (if n < 0 then 45 # dec_digits (nat (- n)) else dec_digits (nat n))"

text \<open>\<^verbatim>\<open>f"{n:X}"\<close>: uppercase hexadecimal, with a minus sign when negative.\<close>

definition format_X :: "int \<Rightarrow> pystr" where
  "format_X n = (if n < 0 then 45 # hex_digits (nat (- n)) else hex_digits (nat n))"

definition zero_pad :: "nat \<Rightarrow> pystr \<Rightarrow> pystr" where
  "zero_pad width s = replicate (width - length s) 48 @ s"

text \<open>
  \<^verbatim>\<open>f"{n:02X}"\<close>: uppercase hexadecimal in a field of width 2 filled with zeros; the
  zeros go between the sign and the digits, and the sign counts towards the width.
\<close>

definition format_02X :: "int \<Rightarrow> pystr" where
  "format_02X n =
     (if n < 0 then 45 # zero_pad (2 - 1) (hex_digits (nat (- n)))
      else zero_pad 2 (hex_digits (nat n)))"

text \<open>
  \<^verbatim>\<open>str.zfill(width)\<close>: zeros on the left up to \<open>width\<close>; a leading sign stays in
  front of the zeros.
\<close>

definition zfill :: "nat \<Rightarrow> pystr \<Rightarrow> pystr" where
  "zfill width s =
     (case s of
        [] \<Rightarrow> replicate width 48
      | c # rest \<Rightarrow>
          if c = 43 \<or> c = 45 then c # replicate (width - length s) 48 @ rest
          else replicate (width - length s) 48 @ s)"

section \<open>The converter\<close>

text \<open>
  The body of the \<^verbatim>\<open>for\<close> loop of \<^verbatim>\<open>dec_to_hex_list\<close> from line 9 on, as a function of
  the local \<open>n\<close> and of the list \<open>result\<close> built so far.  \<^verbatim>\<open>continue\<close> ends the
  iteration after the first \<^verbatim>\<open>append\<close>.
\<close>

definition loop_body :: "int \<Rightarrow> pystr list \<Rightarrow> pystr list" where
  "loop_body n result =
     (if n < 0 then result @ [str_int n @ [32, arrow, 32] @ error_word]
      else
        let hex_str = zfill 4 (ascii ''0x'' @ format_X n);
            hex_str = (if n \<le> 255 then ascii ''0x'' @ format_02X n
                       else ascii ''0x'' @ format_X n)
        in result @ [str_int n @ [32, arrow, 32] @ hex_str])"

text \<open>
  \<^verbatim>\<open>dec_to_hex_list(numbers)\<close> for a list of Python ints, on which \<^verbatim>\<open>int(num)\<close> is the
  identity.  \<^verbatim>\<open>%\<close> is floored, as \<open>mod\<close> on \<^typ>\<open>int\<close> is.
\<close>

definition dec_to_hex_list :: "int list \<Rightarrow> pystr list" where
  "dec_to_hex_list numbers =
     foldl (\<lambda>result num. let n = num mod 256 in loop_body n result) [] numbers"

section \<open>The driver\<close>

text \<open>
  The only state of the program outside the converter's locals is what has been written
  to standard output.
\<close>

record world =
  stdout :: pystr

definition decimal_numbers :: "int list" where
  "decimal_numbers = [283, 285, 299, 301, 313, 319, 333, 351, 355, 357, 361, 369,
                      375, 379, 391, 395, 397, 415, 419, 425, 433, 445, 451, 463, 471, 477,
                      487, 499, 501, 505]"

text \<open>\<^verbatim>\<open>print(line)\<close> writes the line and a newline to standard output.\<close>

definition print :: "pystr \<Rightarrow> world \<Rightarrow> world" where
  "print line w = w\<lparr>stdout := stdout w @ line @ [10]\<rparr>"

text \<open>
  A call of the converter from a program state: the function reads and writes nothing
  but its argument and its own locals, so the state comes back as it was.
\<close>

definition call_dec_to_hex_list :: "int list \<Rightarrow> world \<Rightarrow> pystr list \<times> world" where
  "call_dec_to_hex_list numbers w = (dec_to_hex_list numbers, w)"

text \<open>
  The top-level \<^verbatim>\<open>for\<close> loop of lines 31--32: one call of the converter on
  \<open>decimal_numbers\<close>, then one \<^verbatim>\<open>print\<close> per returned string, in order.
\<close>

definition script :: "world \<Rightarrow> world" where
  "script w =
     (let (lines, w') = call_dec_to_hex_list decimal_numbers w
      in foldl (\<lambda>w line. print line w) w' lines)"

section \<open>Specification-side definitions\<close>

text \<open>
  The line the specification describes for a normalized value \<open>n\<close>: the decimal
  rendering, the arrow between two spaces, \<open>0x\<close>, and \<open>n\<close> as exactly two uppercase
  hexadecimal digits.
\<close>

definition two_digit_line :: "int \<Rightarrow> pystr" where
  "two_digit_line n =
     str_int n @ [32, arrow, 32] @ ascii ''0x'' @
     [upper_hex_digits ! (nat n div 16), upper_hex_digits ! (nat n mod 16)]"

text \<open>
  Reading a line back: the text before the arrow and the text after it; the decimal
  portion is the text before the arrow without its trailing spaces, read as a signed
  decimal numeral (\<open>None\<close> when it is not one).
\<close>

definition before_arrow :: "pystr \<Rightarrow> pystr" where
  "before_arrow s = takeWhile (\<lambda>c. c \<noteq> arrow) s"

definition after_arrow :: "pystr \<Rightarrow> pystr" where
  "after_arrow s = drop 1 (dropWhile (\<lambda>c. c \<noteq> arrow) s)"

definition rstrip :: "pystr \<Rightarrow> pystr" where
  "rstrip s = rev (dropWhile (\<lambda>c. c = 32) (rev s))"

fun parse_digits :: "pystr \<Rightarrow> nat \<Rightarrow> nat option" where
  "parse_digits [] acc = Some acc"
| "parse_digits (c # cs) acc =
     (if 48 \<le> c \<and> c \<le> 57 then parse_digits cs (10 * acc + (c - 48)) else None)"

definition parse_int :: "pystr \<Rightarrow> int option" where
  "parse_int s =
     (case s of
        [] \<Rightarrow> None
      | c # cs \<Rightarrow>
          if c = 45 then (if cs = [] then None else map_option (\<lambda>k. - int k) (parse_digits cs 0))
          else map_option int (parse_digits s 0))"

definition decimal_portion :: "pystr \<Rightarrow> int option" where
  "decimal_portion s = parse_int (rstrip (before_arrow s))"

text \<open>
  The two formats a line can have after the arrow: the error text of line 10, or \<open>0x\<close>
  followed by hexadecimal digits; a two-digit line has exactly two of them.
\<close>

definition is_error_line :: "pystr \<Rightarrow> bool" where
  "is_error_line s = (after_arrow s = 32 # error_word)"

definition hex_part :: "pystr \<Rightarrow> pystr option" where
  "hex_part s =
     (case after_arrow s of
        sp # z # x # hs \<Rightarrow> if sp = 32 \<and> z = 48 \<and> x = 120 then Some hs else None
      | _ \<Rightarrow> None)"

definition is_two_digit_line :: "pystr \<Rightarrow> bool" where
  "is_two_digit_line s =
     (case hex_part s of
        None \<Rightarrow> False
      | Some hs \<Rightarrow> length hs = 2 \<and> list_all (\<lambda>h. h \<in> set upper_hex_digits) hs)"

text \<open>
  The lines of a text written to standard output: each ends at a newline (code point 10);
  \<open>cur\<close> holds the characters of the line being read.
\<close>

fun split_lines :: "pystr \<Rightarrow> pystr \<Rightarrow> pystr list" where
  "split_lines [] cur = (if cur = [] then [] else [cur])"
| "split_lines (c # cs) cur =
     (if c = 10 then cur # split_lines cs [] else split_lines cs (cur @ [c]))"

text \<open>
  The converter with the assignment of line 13 removed, everything else as in
  \<open>loop_body\<close> and \<open>dec_to_hex_list\<close>.
\<close>

definition loop_body_without_line13 :: "int \<Rightarrow> pystr list \<Rightarrow> pystr list" where
  "loop_body_without_line13 n result =
     (if n < 0 then result @ [str_int n @ [32, arrow, 32] @ error_word]
      else
        let hex_str = (if n \<le> 255 then ascii ''0x'' @ format_02X n
                       else ascii ''0x'' @ format_X n)
        in result @ [str_int n @ [32, arrow, 32] @ hex_str])"

definition dec_to_hex_list_without_line13 :: "int list \<Rightarrow> pystr list" where
  "dec_to_hex_list_without_line13 numbers =
     foldl (\<lambda>result num. let n = num mod 256 in loop_body_without_line13 n result) [] numbers"

section \<open>Properties of the formatting functions\<close>

lemma mod_256_range: "0 \<le> (v::int) mod 256 \<and> v mod 256 \<le> 255"
  by simp

lemma upper_hex_digits_list:
  "upper_hex_digits = [48, 49, 50, 51, 52, 53, 54, 55, 56, 57, 65, 66, 67, 68, 69, 70]"
  by (simp add: upper_hex_digits_def ascii_def)

lemma length_upper_hex_digits: "length upper_hex_digits = 16"
  by (simp add: upper_hex_digits_list)

lemma hex_digits_small: "k < 16 \<Longrightarrow> hex_digits k = [upper_hex_digits ! k]"
  by (simp add: hex_digits.simps)

lemma hex_digits_byte:
  assumes "16 \<le> k" and "k < 256"
  shows "hex_digits k = [upper_hex_digits ! (k div 16), upper_hex_digits ! (k mod 16)]"
proof -
  from assms have "k div 16 < 16" by simp
  then have "hex_digits (k div 16) = [upper_hex_digits ! (k div 16)]"
    by (rule hex_digits_small)
  with assms show ?thesis
    by (subst hex_digits.simps) simp
qed

lemma zero_pad_hex_byte:
  assumes "k < 256"
  shows "zero_pad 2 (hex_digits k) = [upper_hex_digits ! (k div 16), upper_hex_digits ! (k mod 16)]"
proof (cases "k < 16")
  case True
  then show ?thesis
    by (simp add: hex_digits_small zero_pad_def upper_hex_digits_list)
next
  case False
  with assms show ?thesis
    by (simp add: hex_digits_byte zero_pad_def)
qed

lemma format_02X_byte:
  "0 \<le> n \<Longrightarrow> n \<le> 255 \<Longrightarrow>
   format_02X n = [upper_hex_digits ! (nat n div 16), upper_hex_digits ! (nat n mod 16)]"
  by (simp add: format_02X_def zero_pad_hex_byte)

lemma loop_body_byte:
  "0 \<le> n \<Longrightarrow> n \<le> 255 \<Longrightarrow> loop_body n result = result @ [two_digit_line n]"
  by (simp add: loop_body_def two_digit_line_def format_02X_byte)

lemma foldl_loop_body:
  "foldl (\<lambda>result num. let n = num mod 256 in loop_body n result) acc numbers =
   acc @ map (\<lambda>v. two_digit_line (v mod 256)) numbers"
proof (induction numbers arbitrary: acc)
  case Nil
  show ?case by simp
next
  case (Cons v vs)
  have "loop_body (v mod 256) acc = acc @ [two_digit_line (v mod 256)]"
    by (rule loop_body_byte) simp_all
  with Cons show ?case by simp
qed

lemma dec_to_hex_list_map:
  "dec_to_hex_list numbers = map (\<lambda>v. two_digit_line (v mod 256)) numbers"
  unfolding dec_to_hex_list_def by (subst foldl_loop_body) simp

lemma dec_digits_range: "c \<in> set (dec_digits k) \<Longrightarrow> 48 \<le> c \<and> c \<le> 57"
proof (induction k rule: dec_digits.induct)
  case (1 n)
  show ?case
  proof (cases "n < 10")
    case True
    with "1.prems" show ?thesis by (simp add: dec_digits.simps)
  next
    case False
    from "1.prems" False have "c \<in> set (dec_digits (n div 10)) \<or> c = 48 + n mod 10"
      by (subst (asm) dec_digits.simps) auto
    then show ?thesis
    proof
      assume "c \<in> set (dec_digits (n div 10))"
      with "1.IH" False show ?thesis by simp
    next
      assume "c = 48 + n mod 10"
      moreover have "n mod 10 < 10" by simp
      ultimately show ?thesis by linarith
    qed
  qed
qed

lemma dec_digits_nonempty: "dec_digits k \<noteq> []"
  by (subst dec_digits.simps) simp

lemma last_dec_digits: "last (dec_digits k) = 48 + k mod 10"
  by (subst dec_digits.simps) (simp add: dec_digits_nonempty)

lemma parse_digits_append:
  "parse_digits (xs @ ys) acc =
   (case parse_digits xs acc of None \<Rightarrow> None | Some a \<Rightarrow> parse_digits ys a)"
  by (induction xs arbitrary: acc) simp_all

lemma parse_dec_digits: "parse_digits (dec_digits k) 0 = Some k"
proof (induction k rule: dec_digits.induct)
  case (1 n)
  show ?case
  proof (cases "n < 10")
    case True
    then show ?thesis by (simp add: dec_digits.simps)
  next
    case False
    with "1.IH" have "parse_digits (dec_digits (n div 10)) 0 = Some (n div 10)" by simp
    moreover have "n mod 10 < 10" by simp
    ultimately have "parse_digits (dec_digits (n div 10) @ [48 + n mod 10]) 0 = Some n"
      by (simp add: parse_digits_append)
    with False show ?thesis by (subst dec_digits.simps) simp
  qed
qed

lemma hd_dec_digits: "hd (dec_digits k) \<noteq> 45"
proof -
  have "hd (dec_digits k) \<in> set (dec_digits k)"
    by (simp add: dec_digits_nonempty)
  then have "48 \<le> hd (dec_digits k)" by (simp add: dec_digits_range)
  then show ?thesis by simp
qed

lemma parse_int_str_int: "parse_int (str_int n) = Some n"
proof (cases "n < 0")
  case True
  then show ?thesis
    by (simp add: parse_int_def str_int_def parse_dec_digits dec_digits_nonempty)
next
  case False
  obtain c cs where eq: "dec_digits (nat n) = c # cs"
    using dec_digits_nonempty [of "nat n"] by (cases "dec_digits (nat n)") auto
  with hd_dec_digits [of "nat n"] have "c \<noteq> 45" by simp
  moreover have "parse_digits (c # cs) 0 = Some (nat n)"
    using parse_dec_digits [of "nat n"] eq by simp
  ultimately show ?thesis
    using False eq by (simp add: parse_int_def str_int_def del: parse_digits.simps)
qed

lemma str_int_no_arrow:
  assumes "c \<in> set (str_int n)" shows "c \<noteq> arrow"
proof -
  from assms have "c = 45 \<or> (48 \<le> c \<and> c \<le> 57)"
    by (auto simp: str_int_def dest: dec_digits_range split: if_splits)
  then show ?thesis by (auto simp: arrow_def)
qed

lemma before_arrow_line: "before_arrow (str_int n @ [32, arrow, 32] @ rest) = str_int n @ [32]"
proof -
  have "takeWhile (\<lambda>c. c \<noteq> arrow) (str_int n @ [32, arrow, 32] @ rest) =
        str_int n @ takeWhile (\<lambda>c. c \<noteq> arrow) ([32, arrow, 32] @ rest)"
    by (rule takeWhile_append2) (rule str_int_no_arrow)
  also have "takeWhile (\<lambda>c. c \<noteq> arrow) ([32, arrow, 32] @ rest) = [32]"
    by (simp add: arrow_def)
  finally show ?thesis by (simp add: before_arrow_def)
qed

lemma after_arrow_line: "after_arrow (str_int n @ [32, arrow, 32] @ rest) = 32 # rest"
proof -
  have "dropWhile (\<lambda>c. c \<noteq> arrow) (str_int n @ [32, arrow, 32] @ rest) =
        dropWhile (\<lambda>c. c \<noteq> arrow) ([32, arrow, 32] @ rest)"
    by (rule dropWhile_append2) (rule str_int_no_arrow)
  also have "\<dots> = arrow # 32 # rest"
    by (simp add: arrow_def)
  finally show ?thesis by (simp add: after_arrow_def)
qed

lemma rstrip_str_int: "rstrip (str_int n @ [32]) = str_int n"
proof -
  have ne: "dec_digits k \<noteq> []" for k by (rule dec_digits_nonempty)
  have "last (str_int n) \<noteq> 32"
    by (simp add: str_int_def last_dec_digits ne)
  moreover have "str_int n \<noteq> []"
    by (simp add: str_int_def ne)
  ultimately have "dropWhile (\<lambda>c. c = 32) (rev (str_int n)) = rev (str_int n)"
    by (cases "rev (str_int n)") (auto simp: last_rev hd_rev [symmetric])
  then show ?thesis by (simp add: rstrip_def)
qed

lemma decimal_portion_line: "decimal_portion (str_int n @ [32, arrow, 32] @ rest) = Some n"
  by (simp only: decimal_portion_def before_arrow_line rstrip_str_int parse_int_str_int)

lemma dec_to_hex_list_single: "dec_to_hex_list [v] = [two_digit_line (v mod 256)]"
  by (simp add: dec_to_hex_list_map)

lemma error_word_not_hex: "after_arrow (two_digit_line n) \<noteq> 32 # error_word"
proof -
  have "after_arrow (two_digit_line n) =
        32 # ascii ''0x'' @ [upper_hex_digits ! (nat n div 16), upper_hex_digits ! (nat n mod 16)]"
    unfolding two_digit_line_def by (rule after_arrow_line)
  then show ?thesis by (simp add: ascii_def error_word_def)
qed

lemma upper_hex_digits_member: "k < 16 \<Longrightarrow> upper_hex_digits ! k \<in> set upper_hex_digits"
  by (simp add: length_upper_hex_digits)

lemma two_digit_line_ok:
  assumes "0 \<le> n" and "n \<le> 255"
  shows "\<not> is_error_line (two_digit_line n) \<and> is_two_digit_line (two_digit_line n)"
proof -
  have aa: "after_arrow (two_digit_line n) =
        32 # ascii ''0x'' @ [upper_hex_digits ! (nat n div 16), upper_hex_digits ! (nat n mod 16)]"
    unfolding two_digit_line_def by (rule after_arrow_line)
  from assms have "nat n div 16 < 16" by simp
  then have h1: "upper_hex_digits ! (nat n div 16) \<in> set upper_hex_digits"
    by (rule upper_hex_digits_member)
  have h2: "upper_hex_digits ! (nat n mod 16) \<in> set upper_hex_digits"
    by (rule upper_hex_digits_member) simp
  have "hex_part (two_digit_line n) =
        Some [upper_hex_digits ! (nat n div 16), upper_hex_digits ! (nat n mod 16)]"
    by (simp add: hex_part_def aa ascii_def)
  with h1 h2 have "is_two_digit_line (two_digit_line n)"
    by (simp add: is_two_digit_line_def)
  moreover have "\<not> is_error_line (two_digit_line n)"
    by (simp add: is_error_line_def error_word_not_hex)
  ultimately show ?thesis by simp
qed

lemma foldl_print:
  "stdout (foldl (\<lambda>w line. print line w) w lines) =
   stdout w @ concat (map (\<lambda>line. line @ [10]) lines)"
  by (induction lines arbitrary: w) (simp_all add: print_def)

lemma script_stdout:
  "stdout (script w) =
   stdout w @ concat (map (\<lambda>line. line @ [10]) (dec_to_hex_list decimal_numbers))"
  by (simp add: script_def call_dec_to_hex_list_def foldl_print)

lemma split_lines_line:
  "10 \<notin> set l \<Longrightarrow> split_lines (l @ 10 # rest) cur = (cur @ l) # split_lines rest []"
  by (induction l arbitrary: cur) simp_all

lemma split_lines_concat:
  "list_all (\<lambda>l. 10 \<notin> set l) ls \<Longrightarrow>
   split_lines (concat (map (\<lambda>line. line @ [10]) ls)) [] = ls"
  by (induction ls) (simp_all add: split_lines_line)

lemma str_int_no_newline: "10 \<notin> set (str_int n)"
proof
  assume "10 \<in> set (str_int n)"
  then have "(10::nat) = 45 \<or> (48 \<le> (10::nat) \<and> (10::nat) \<le> 57)"
    by (auto simp: str_int_def dest: dec_digits_range split: if_splits)
  then show False by simp
qed

lemma upper_hex_digits_no_newline: "k < 16 \<Longrightarrow> upper_hex_digits ! k \<noteq> 10"
proof -
  assume "k < 16"
  then have "upper_hex_digits ! k \<in> set upper_hex_digits"
    by (rule upper_hex_digits_member)
  then show ?thesis by (auto simp: upper_hex_digits_list)
qed

lemma two_digit_line_no_newline:
  assumes "0 \<le> n" and "n \<le> 255"
  shows "10 \<notin> set (two_digit_line n)"
proof -
  from assms have "nat n div 16 < 16" by simp
  then have "upper_hex_digits ! (nat n div 16) \<noteq> 10"
    by (rule upper_hex_digits_no_newline)
  moreover have "upper_hex_digits ! (nat n mod 16) \<noteq> 10"
    by (rule upper_hex_digits_no_newline) simp
  ultimately show ?thesis
    by (simp add: two_digit_line_def str_int_no_newline arrow_def ascii_def)
qed

lemma dec_to_hex_list_no_newline: "list_all (\<lambda>l. 10 \<notin> set l) (dec_to_hex_list numbers)"
proof -
  have "10 \<notin> set (two_digit_line (v mod 256))" for v :: int
    by (rule two_digit_line_no_newline) simp_all
  then show ?thesis
    by (simp add: dec_to_hex_list_map list_all_iff)
qed

lemma script_lines:
  "split_lines (stdout (script \<lparr>stdout = []\<rparr>)) [] = dec_to_hex_list decimal_numbers"
  by (simp add: script_stdout split_lines_concat dec_to_hex_list_no_newline)

lemma length_decimal_numbers: "length decimal_numbers = 30"
  by (simp add: decimal_numbers_def)

lemma length_dec_to_hex_list: "length (dec_to_hex_list numbers) = length numbers"
  by (simp add: dec_to_hex_list_map)

lemma dec_to_hex_list_lines_ok:
  "list_all (\<lambda>s. \<not> is_error_line s \<and> is_two_digit_line s) (dec_to_hex_list numbers)"
proof -
  have "\<not> is_error_line (two_digit_line (v mod 256)) \<and>
        is_two_digit_line (two_digit_line (v mod 256))" for v :: int
    by (rule two_digit_line_ok) simp_all
  then show ?thesis
    by (simp add: dec_to_hex_list_map list_all_iff)
qed

lemma decimal_numbers_range: "list_all (\<lambda>v. 256 \<le> v \<and> v \<le> 511) decimal_numbers"
  by (simp add: decimal_numbers_def)

lemma decimal_numbers_lines:
  "dec_to_hex_list decimal_numbers = map (\<lambda>v. two_digit_line (v - 256)) decimal_numbers"
proof -
  have "v mod 256 = v - 256" if "256 \<le> v" "v \<le> 511" for v :: int
    using that by presburger
  with decimal_numbers_range show ?thesis
    by (simp add: dec_to_hex_list_map list_all_iff)
qed

lemma decimal_portion_two_digit_line: "decimal_portion (two_digit_line n) = Some n"
  unfolding two_digit_line_def by (rule decimal_portion_line)

section \<open>The claims\<close>


text \<open>
  Claim C2.  For every integer \<open>v\<close> with normalized value \<open>n = v mod 256\<close>, the output
  line is the decimal rendering of \<open>n\<close>, the arrow between two spaces, \<open>0x\<close> and the
  two uppercase hexadecimal digits of \<open>n\<close> (the digit for \<open>n div 16\<close>, then the digit
  for \<open>n mod 16\<close>).  The four examples 5, 27, 0 and 255 give the literal strings of the
  specification.
\<close>

theorem two_digit_format:
  "dec_to_hex_list [v] = [two_digit_line (v mod 256)] \<and>
   dec_to_hex_list [5] = [ascii ''5 '' @ [arrow] @ ascii '' 0x05''] \<and>
   dec_to_hex_list [27] = [ascii ''27 '' @ [arrow] @ ascii '' 0x1B''] \<and>
   dec_to_hex_list [0] = [ascii ''0 '' @ [arrow] @ ascii '' 0x00''] \<and>
   dec_to_hex_list [255] = [ascii ''255 '' @ [arrow] @ ascii '' 0xFF'']"
proof -
  have a: "dec_to_hex_list [5] = [ascii ''5 '' @ [arrow] @ ascii '' 0x05'']" by code_simp
  have b: "dec_to_hex_list [27] = [ascii ''27 '' @ [arrow] @ ascii '' 0x1B'']" by code_simp
  have c: "dec_to_hex_list [0] = [ascii ''0 '' @ [arrow] @ ascii '' 0x00'']" by code_simp
  have d: "dec_to_hex_list [255] = [ascii ''255 '' @ [arrow] @ ascii '' 0xFF'']" by code_simp
  from a b c d show ?thesis
    by (simp only: dec_to_hex_list_single simp_thms)
qed

text \<open>
  Claim C3.  For every list of integers, negative ones included, no line returned by
  \<open>dec_to_hex_list\<close> is the error variant and every line carries exactly two uppercase
  hexadecimal digits after \<open>0x\<close>; the guards \<open>n < 0\<close> and \<open>n > 255\<close> are false for
  every \<open>n = v mod 256\<close>.
\<close>

theorem dead_branches_never_observed:
  "list_all (\<lambda>s. \<not> is_error_line s \<and> is_two_digit_line s) (dec_to_hex_list numbers) \<and>
   list_all (\<lambda>v. \<not> v mod 256 < 0 \<and> \<not> 255 < v mod 256) numbers"
proof -
  have "\<not> v mod 256 < 0 \<and> \<not> 255 < v mod 256" for v :: int
    using mod_256_range [of v] by linarith
  then have "list_all (\<lambda>v. \<not> v mod 256 < 0 \<and> \<not> 255 < v mod 256) numbers"
    by (simp only: list_all_iff) blast
  with dec_to_hex_list_lines_ok [of numbers] show ?thesis by (rule conjI)
qed

text \<open>
  Claim C5.  The returned list is as long as the input list, and its \<open>i\<close>-th string
  comes from the \<open>i\<close>-th input value: it is the two-digit line of that value modulo
  256, its decimal portion reads back as that value modulo 256, and it is the string the
  converter yields for that value alone.
\<close>

theorem order_preserved:
  "length (dec_to_hex_list numbers) = length numbers \<and>
   (\<forall>i < length numbers.
      dec_to_hex_list numbers ! i = two_digit_line (numbers ! i mod 256) \<and>
      decimal_portion (dec_to_hex_list numbers ! i) = Some (numbers ! i mod 256) \<and>
      dec_to_hex_list [numbers ! i] = [dec_to_hex_list numbers ! i])"
  by (simp add: dec_to_hex_list_map decimal_portion_two_digit_line)

theorem order_preserved_witness:
  "length (dec_to_hex_list [283, -1, 5]) = 3 \<and>
   dec_to_hex_list [283, -1, 5] ! 0 = ascii ''27 '' @ [arrow] @ ascii '' 0x1B'' \<and>
   dec_to_hex_list [283, -1, 5] ! 1 = ascii ''255 '' @ [arrow] @ ascii '' 0xFF'' \<and>
   dec_to_hex_list [283, -1, 5] ! 2 = ascii ''5 '' @ [arrow] @ ascii '' 0x05'' \<and>
   decimal_portion (dec_to_hex_list [283, -1, 5] ! 1) = Some 255"
proof -
  note inst = order_preserved [of "[283, -1, 5]"]
  have l27: "two_digit_line 27 = ascii ''27 '' @ [arrow] @ ascii '' 0x1B''"
    by code_simp
  have l255: "two_digit_line 255 = ascii ''255 '' @ [arrow] @ ascii '' 0xFF''"
    by code_simp
  have l5: "two_digit_line 5 = ascii ''5 '' @ [arrow] @ ascii '' 0x05''"
    by code_simp
  from inst have len: "length (dec_to_hex_list [283, -1, 5]) = 3"
    by simp
  have line_at: "dec_to_hex_list [283, -1, 5] ! i = two_digit_line ([283, -1, 5] ! i mod 256)"
    if "i < length [283, -1, 5 :: int]" for i
    using inst that by blast
  have portion_at:
    "decimal_portion (dec_to_hex_list [283, -1, 5] ! i) = Some ([283, -1, 5] ! i mod 256)"
    if "i < length [283, -1, 5 :: int]" for i
    using inst that by blast
  have "dec_to_hex_list [283, -1, 5] ! 0 = two_digit_line 27"
    using line_at [of 0] by simp
  moreover have "dec_to_hex_list [283, -1, 5] ! 1 = two_digit_line 255"
    using line_at [of 1] by simp
  moreover have "dec_to_hex_list [283, -1, 5] ! 2 = two_digit_line 5"
    using line_at [of 2] by simp
  moreover have "decimal_portion (dec_to_hex_list [283, -1, 5] ! 1) = Some 255"
    using portion_at [of 1] by simp
  ultimately show ?thesis
    using len by (simp only: l27 l255 l5 simp_thms)
qed

text \<open>
  Claim C6.  The inputs \<open>[283, 285]\<close>, \<open>[256]\<close> and \<open>[511]\<close> give the lines
  \<^verbatim>\<open>27 -> 0x1B\<close>, \<^verbatim>\<open>29 -> 0x1D\<close>; \<^verbatim>\<open>0 -> 0x00\<close>; and \<^verbatim>\<open>255 -> 0xFF\<close>
  (with the arrow U+2192 where \<^verbatim>\<open>->\<close> is written here).
\<close>

theorem concrete_scenarios:
  "dec_to_hex_list [283, 285] =
     [ascii ''27 '' @ [arrow] @ ascii '' 0x1B'', ascii ''29 '' @ [arrow] @ ascii '' 0x1D''] \<and>
   dec_to_hex_list [256] = [ascii ''0 '' @ [arrow] @ ascii '' 0x00''] \<and>
   dec_to_hex_list [511] = [ascii ''255 '' @ [arrow] @ ascii '' 0xFF'']"
  by code_simp

text \<open>
  Claim C7.  The literal \<open>decimal_numbers\<close> has exactly 30 elements, and the script
  writes to standard output one line (the string and a newline) per element, in order:
  the lines written are exactly the strings of \<open>dec_to_hex_list decimal_numbers\<close>.
\<close>

theorem script_prints_each_line:
  "length decimal_numbers = 30 \<and>
   stdout (script w) =
     stdout w @ concat (map (\<lambda>line. line @ [10]) (dec_to_hex_list decimal_numbers)) \<and>
   split_lines (stdout (script \<lparr>stdout = []\<rparr>)) [] = dec_to_hex_list decimal_numbers \<and>
   length (split_lines (stdout (script \<lparr>stdout = []\<rparr>)) []) = 30"
proof -
  have "length (split_lines (stdout (script \<lparr>stdout = []\<rparr>)) []) = 30"
    by (simp only: script_lines length_dec_to_hex_list length_decimal_numbers)
  with length_decimal_numbers script_stdout [of w] script_lines show ?thesis
    by (intro conjI)
qed

text \<open>
  Claim C9.  The assignment to \<open>hex_str\<close> on line 13 never reaches the output:
  \<open>dec_to_hex_list\<close> equals the same function with that line removed, on every input.
\<close>

theorem line13_is_dead:
  "dec_to_hex_list numbers = dec_to_hex_list_without_line13 numbers"
proof -
  have "loop_body n result = loop_body_without_line13 n result" for n result
    by (simp add: loop_body_def loop_body_without_line13_def)
  then show ?thesis
    by (simp add: dec_to_hex_list_def dec_to_hex_list_without_line13_def)
qed

text \<open>
  Claim C10.  Every element of \<open>decimal_numbers\<close> lies in \<open>[256, 511]\<close>; the script's
  output is, for each element \<open>v\<close> in order, the two-digit line of \<open>v - 256\<close>, whose
  decimal portion is \<open>v - 256\<close>; there are 30 such lines, the first is
  \<^verbatim>\<open>27 -> 0x1B\<close> and the last is \<^verbatim>\<open>249 -> 0xF9\<close> (with the arrow U+2192).
\<close>

theorem decimal_numbers_output:
  "list_all (\<lambda>v. 256 \<le> v \<and> v \<le> 511) decimal_numbers \<and>
   split_lines (stdout (script \<lparr>stdout = []\<rparr>)) [] =
     map (\<lambda>v. two_digit_line (v - 256)) decimal_numbers \<and>
   map decimal_portion (split_lines (stdout (script \<lparr>stdout = []\<rparr>)) []) =
     map (\<lambda>v. Some (v - 256)) decimal_numbers \<and>
   length (split_lines (stdout (script \<lparr>stdout = []\<rparr>)) []) = 30 \<and>
   list_all is_two_digit_line (split_lines (stdout (script \<lparr>stdout = []\<rparr>)) []) \<and>
   hd (split_lines (stdout (script \<lparr>stdout = []\<rparr>)) []) =
     ascii ''27 '' @ [arrow] @ ascii '' 0x1B'' \<and>
   last (split_lines (stdout (script \<lparr>stdout = []\<rparr>)) []) =
     ascii ''249 '' @ [arrow] @ ascii '' 0xF9''"
proof -
  let ?out = "split_lines (stdout (script \<lparr>stdout = []\<rparr>)) []"
  have out: "?out = map (\<lambda>v. two_digit_line (v - 256)) decimal_numbers"
    by (simp only: script_lines decimal_numbers_lines)
  have dec: "map decimal_portion ?out = map (\<lambda>v. Some (v - 256)) decimal_numbers"
    by (simp add: out decimal_portion_two_digit_line)
  have len: "length ?out = 30"
    by (simp add: out length_decimal_numbers)
  have two: "list_all is_two_digit_line ?out"
    using dec_to_hex_list_lines_ok [of decimal_numbers]
    by (simp add: script_lines list_all_iff)
  have l27: "two_digit_line 27 = ascii ''27 '' @ [arrow] @ ascii '' 0x1B''"
    by code_simp
  have l249: "two_digit_line 249 = ascii ''249 '' @ [arrow] @ ascii '' 0xF9''"
    by code_simp
  have "hd (map (\<lambda>v. two_digit_line (v - 256)) decimal_numbers) = two_digit_line 27"
    by (simp add: decimal_numbers_def)
  with l27 have first: "hd ?out = ascii ''27 '' @ [arrow] @ ascii '' 0x1B''"
    by (simp only: out)
  have "last (map (\<lambda>v. two_digit_line (v - 256)) decimal_numbers) = two_digit_line 249"
    by (simp add: decimal_numbers_def)
  with l249 have final: "last ?out = ascii ''249 '' @ [arrow] @ ascii '' 0xF9''"
    by (simp only: out)
  from decimal_numbers_range out dec len two first final show ?thesis
    by (intro conjI)
qed

end
